theory Spec2Isabelle
  imports Main "HOL-Library.Word"
begin

unbundle bit_operations_syntax

section \<open>The simulated RAM of ptsim.c\<close>

text \<open>
  The simulator keeps everything in one global array \<^verbatim>\<open>unsigned char mem[MEM_SIZE]\<close>.
  A cell is an \<open>8 word\<close>; the array is a store from C \<^verbatim>\<open>int\<close> indices to cells, and
  every access goes through \<open>mem_read\<close> or \<open>mem_write\<close>, which give \<open>None\<close> for an index
  outside \<open>[0, MEM_SIZE)\<close> (undefined behaviour in C). The C \<^verbatim>\<open>int\<close>s are modelled
  as \<open>int\<close>: the only arithmetic that can leave the 32-bit range is
  \<^verbatim>\<open>PTP_OFFSET + proc_num\<close>, and there the address is outside the array as well.
  \<^verbatim>\<open>>>\<close> on a negative \<^verbatim>\<open>int\<close> is taken as the arithmetic shift, \<^verbatim>\<open>&\<close> and \<^verbatim>\<open>|\<close>
  as two's complement.
\<close>

definition MEM_SIZE :: int where "MEM_SIZE = 16384"
definition PAGE_SIZE :: int where "PAGE_SIZE = 256"
definition PAGE_COUNT :: int where "PAGE_COUNT = 64"
definition PAGE_SHIFT :: nat where "PAGE_SHIFT = 8"
definition PTP_OFFSET :: int where "PTP_OFFSET = 64"

type_synonym memory = "int \<Rightarrow> 8 word"

definition mem_read :: "memory \<Rightarrow> int \<Rightarrow> 8 word option" where
  "mem_read m a = (if 0 \<le> a \<and> a < MEM_SIZE then Some (m a) else None)"

definition mem_write :: "memory \<Rightarrow> int \<Rightarrow> 8 word \<Rightarrow> memory option" where
  "mem_write m a v = (if 0 \<le> a \<and> a < MEM_SIZE then Some (m(a := v)) else None)"

text \<open>\<^verbatim>\<open>get_address\<close>: \<^verbatim>\<open>(page << PAGE_SHIFT) | offset\<close>.\<close>

definition get_address :: "int \<Rightarrow> int \<Rightarrow> int" where
  "get_address page offset = push_bit PAGE_SHIFT page OR offset"

text \<open>\<^verbatim>\<open>initialize_mem\<close>: \<^verbatim>\<open>memset\<close> to zero, then mark the zero page as allocated.\<close>

definition initialize_mem :: memory where
  "initialize_mem = (\<lambda>_. 0)(get_address 0 0 := 1)"

definition get_page_table :: "int \<Rightarrow> memory \<Rightarrow> 8 word option" where
  "get_page_table proc_num m = mem_read m (get_address 0 (PTP_OFFSET + proc_num))"

text \<open>The assignment \<^verbatim>\<open>mem[ptp_addr] = page\<close> converts the \<^verbatim>\<open>int\<close> to \<^verbatim>\<open>unsigned char\<close>.\<close>

definition set_page_table :: "int \<Rightarrow> int \<Rightarrow> memory \<Rightarrow> memory option" where
  "set_page_table proc_num page m =
     mem_write m (get_address 0 (PTP_OFFSET + proc_num)) (word_of_int page)"

text \<open>
  \<^verbatim>\<open>allocate_next_page\<close>: the scan \<^verbatim>\<open>for (i = 0; i < PTP_OFFSET; i++)\<close> with its
  \<^verbatim>\<open>break\<close>; the indices it touches are always inside the array. The result is the page
  (or \<open>-1\<close>) and the memory.
\<close>

function alloc_scan :: "int \<Rightarrow> memory \<Rightarrow> int \<times> memory" where
  "alloc_scan i m =
     (if i < PTP_OFFSET then
        (if m i = 0 then (i, m(i := 1)) else alloc_scan (i + 1) m)
      else (-1, m))"
  by pat_completeness auto
termination
  by (relation "measure (\<lambda>(i, m). nat (PTP_OFFSET - i))") auto

declare alloc_scan.simps [simp del]

definition allocate_next_page :: "memory \<Rightarrow> int \<times> memory" where
  "allocate_next_page m = alloc_scan 0 m"

subsection \<open>Output\<close>

text \<open>The lines the program prints, one constructor per \<^verbatim>\<open>printf\<close> format.\<close>

datatype event =
    OOM_page_table int
  | OOM_data_page int
  | Store_trace int int int "8 word"
  | Load_trace int int int "8 word"

record state =
  mem :: memory
  out :: "event list"

definition emit :: "event \<Rightarrow> state \<Rightarrow> state" where
  "emit e s = s\<lparr>out := out s @ [e]\<rparr>"

definition initial_state :: state where
  "initial_state = \<lparr>mem = initialize_mem, out = []\<rparr>"

subsection \<open>Process creation\<close>

text \<open>
  The loop of \<^verbatim>\<open>new_process\<close> over the data pages. An allocation failure prints the
  message and returns; the memory is what the earlier iterations left.
\<close>

function new_process_loop :: "int \<Rightarrow> int \<Rightarrow> int \<Rightarrow> int \<Rightarrow> state \<Rightarrow> state option" where
  "new_process_loop proc_num page_table i page_count s =
     (if i < page_count then
        (case allocate_next_page (mem s) of (page, m1) \<Rightarrow>
           if page = -1 then Some (emit (OOM_data_page proc_num) (s\<lparr>mem := m1\<rparr>))
           else
             (case mem_write m1 (get_address page_table i) (word_of_int page) of
                None \<Rightarrow> None
              | Some m2 \<Rightarrow> new_process_loop proc_num page_table (i + 1) page_count (s\<lparr>mem := m2\<rparr>)))
      else Some s)"
  by pat_completeness auto
termination
  by (relation "measure (\<lambda>(p, t, i, n, s). nat (n - i))") auto

declare new_process_loop.simps [simp del]

definition new_process :: "int \<Rightarrow> int \<Rightarrow> state \<Rightarrow> state option" where
  "new_process proc_num page_count s =
     (case allocate_next_page (mem s) of (page_table, m1) \<Rightarrow>
        if page_table = -1 then Some (emit (OOM_page_table proc_num) (s\<lparr>mem := m1\<rparr>))
        else
          (case set_page_table proc_num page_table m1 of
             None \<Rightarrow> None
           | Some m2 \<Rightarrow> new_process_loop proc_num page_table 0 page_count (s\<lparr>mem := m2\<rparr>)))"

subsection \<open>Process destruction\<close>

function kill_loop :: "int \<Rightarrow> int \<Rightarrow> memory \<Rightarrow> memory option" where
  "kill_loop page_table i m =
     (if i < PAGE_SIZE then
        (case mem_read m (get_address page_table i) of
           None \<Rightarrow> None
         | Some b \<Rightarrow>
             (let page = uint b in
              if page \<noteq> 0 then
                (case mem_write m page 0 of
                   None \<Rightarrow> None
                 | Some m' \<Rightarrow> kill_loop page_table (i + 1) m')
              else kill_loop page_table (i + 1) m))
      else Some m)"
  by pat_completeness auto
termination
  by (relation "measure (\<lambda>(t, i, m). nat (PAGE_SIZE - i))") auto

declare kill_loop.simps [simp del]

definition kill_process :: "int \<Rightarrow> memory \<Rightarrow> memory option" where
  "kill_process proc_num m =
     (case get_page_table proc_num m of
        None \<Rightarrow> None
      | Some b \<Rightarrow>
          (let page_table = uint b in
           case kill_loop page_table 0 m of
             None \<Rightarrow> None
           | Some m' \<Rightarrow> mem_write m' page_table 0))"

subsection \<open>Address translation, stores and loads\<close>

text \<open>
  The first two lines of \<^verbatim>\<open>translate_virtual_address\<close>:
  \<^verbatim>\<open>pte_index = vaddr >> 8\<close> and \<^verbatim>\<open>offset = vaddr & 255\<close>.
\<close>

definition split_vaddr :: "int \<Rightarrow> int \<times> int" where
  "split_vaddr vaddr = (drop_bit 8 vaddr, vaddr AND 255)"

definition translate_virtual_address :: "int \<Rightarrow> int \<Rightarrow> memory \<Rightarrow> int option" where
  "translate_virtual_address proc_num vaddr m =
     (case split_vaddr vaddr of (pte_index, offset) \<Rightarrow>
        (case get_page_table proc_num m of
           None \<Rightarrow> None
         | Some b \<Rightarrow>
             (let page_table = uint b;
                  pte_addr = get_address page_table pte_index
              in case mem_read m pte_addr of
                   None \<Rightarrow> None
                 | Some e \<Rightarrow> Some (get_address (uint e) offset))))"

definition store_value :: "int \<Rightarrow> int \<Rightarrow> 8 word \<Rightarrow> state \<Rightarrow> state option" where
  "store_value proc_num vaddr v s =
     (case translate_virtual_address proc_num vaddr (mem s) of
        None \<Rightarrow> None
      | Some addr \<Rightarrow>
          (case mem_write (mem s) addr v of
             None \<Rightarrow> None
           | Some m' \<Rightarrow> Some (emit (Store_trace proc_num vaddr addr v) (s\<lparr>mem := m'\<rparr>))))"

definition load_value :: "int \<Rightarrow> int \<Rightarrow> state \<Rightarrow> state option" where
  "load_value proc_num vaddr s =
     (case translate_virtual_address proc_num vaddr (mem s) of
        None \<Rightarrow> None
      | Some addr \<Rightarrow>
          (case mem_read (mem s) addr of
             None \<Rightarrow> None
           | Some v \<Rightarrow> Some (emit (Load_trace proc_num vaddr addr v) s)))"

subsection \<open>The command loop of main\<close>

text \<open>
  The four commands of \<^verbatim>\<open>main\<close> that change or read the memory through a process:
  \<^verbatim>\<open>np\<close>, \<^verbatim>\<open>kp\<close>, \<^verbatim>\<open>sb\<close> and \<^verbatim>\<open>lb\<close>, with their arguments already parsed
  (\<^verbatim>\<open>sb\<close> converts its value to \<^verbatim>\<open>unsigned char\<close>). The two printers \<^verbatim>\<open>pfm\<close> and
  \<^verbatim>\<open>ppt\<close> only read the memory and are left out. A run stops with \<open>None\<close> at the first
  access outside the array.
\<close>

datatype command = NP int int | KP int | SB int int "8 word" | LB int int

fun exec :: "command \<Rightarrow> state \<Rightarrow> state option" where
  "exec (NP p k) s = new_process p k s"
| "exec (KP p) s = (case kill_process p (mem s) of None \<Rightarrow> None | Some m' \<Rightarrow> Some (s\<lparr>mem := m'\<rparr>))"
| "exec (SB p a v) s = store_value p a v s"
| "exec (LB p a) s = load_value p a s"

fun run :: "command list \<Rightarrow> state \<Rightarrow> state option" where
  "run [] s = Some s"
| "run (c # cs) s = (case exec c s of None \<Rightarrow> None | Some s' \<Rightarrow> run cs s')"

text \<open>Reading one cell, the output, or the free pages of the state a run ends in.\<close>

definition cell_after :: "int \<Rightarrow> state option \<Rightarrow> 8 word option" where
  "cell_after a r = (case r of None \<Rightarrow> None | Some s \<Rightarrow> Some (mem s a))"

definition out_after :: "state option \<Rightarrow> event list option" where
  "out_after r = (case r of None \<Rightarrow> None | Some s \<Rightarrow> Some (out s))"

text \<open>
  The free pages of a memory: the indices of the bitmap \<open>[0, PTP_OFFSET)\<close> whose byte is 0,
  in increasing order (what \<^verbatim>\<open>print_page_free_map\<close> shows as dots).
\<close>

definition free_from :: "int \<Rightarrow> memory \<Rightarrow> int list" where
  "free_from i m = filter (\<lambda>j. m j = 0) [i..PTP_OFFSET - 1]"

definition free_pages :: "memory \<Rightarrow> int list" where
  "free_pages m = free_from 0 m"

definition free_count_after :: "state option \<Rightarrow> nat option" where
  "free_count_after r = (case r of None \<Rightarrow> None | Some s \<Rightarrow> Some (length (free_pages (mem s))))"


subsection \<open>Notions used in the statements\<close>

text \<open>
  The scan of \<^verbatim>\<open>kill_process\<close> over page 0, in the words of claim C2: at
  offset \<open>i\<close> of page 0, a nonzero byte \<open>v\<close> clears the byte at index \<open>v\<close>; after the
  last offset the byte at index 0 is cleared.
\<close>

definition clear_via :: "memory \<Rightarrow> int \<Rightarrow> memory" where
  "clear_via m i = (if m i \<noteq> 0 then m(uint (m i) := 0) else m)"

definition kill_through_page_zero :: "memory \<Rightarrow> memory" where
  "kill_through_page_zero m = (foldl clear_via m [0..PAGE_SIZE - 1])(0 := 0)"



text \<open>
  The memory after the data pages \<open>ds\<close> have been allocated one by one and entered in the
  page table \<open>page_table\<close> from entry \<open>i\<close> on.
\<close>

fun map_pages :: "int \<Rightarrow> int \<Rightarrow> int list \<Rightarrow> memory \<Rightarrow> memory" where
  "map_pages page_table i [] m = m"
| "map_pages page_table i (d # ds) m =
     map_pages page_table (i + 1) ds (m(d := 1, get_address page_table i := word_of_int d))"

section \<open>Addresses\<close>

lemma get_address_add:
  assumes "0 \<le> offset" "offset < 256"
  shows "get_address page offset = page * 256 + offset"
proof -
  have t: "take_bit 8 offset = offset"
    using assms by (simp add: take_bit_int_eq_self)
  have "push_bit 8 page AND offset = push_bit 8 page AND take_bit 8 offset"
    by (simp only: t)
  also have "\<dots> = 0"
    by (rule bit_eqI) (auto simp add: bit_simps)
  finally have "push_bit 8 page + offset = push_bit 8 page OR offset"
    by (rule disjunctive_add_eq_or)
  then show ?thesis
    by (simp add: get_address_def PAGE_SHIFT_def push_bit_eq_mult)
qed

lemma get_address_zero_page: "get_address 0 offset = offset"
  by (simp add: get_address_def)


lemma split_vaddr_eq: "split_vaddr v = (v div 256, v mod 256)"
proof -
  have "v AND 255 = take_bit 8 v"
    by (simp add: take_bit_eq_mask mask_numeral)
  then show ?thesis
    by (simp add: split_vaddr_def drop_bit_eq_div take_bit_eq_mod)
qed

text \<open>The equations that evaluate the program on a concrete memory.\<close>

lemmas run_defs = MEM_SIZE_def PAGE_SIZE_def PAGE_COUNT_def PAGE_SHIFT_def PTP_OFFSET_def
  mem_read_def mem_write_def get_address_def initialize_mem_def get_page_table_def
  set_page_table_def allocate_next_page_def alloc_scan.simps new_process_loop.simps
  new_process_def kill_loop.simps kill_process_def split_vaddr_def
  translate_virtual_address_def store_value_def load_value_def emit_def initial_state_def
  cell_after_def out_after_def

text \<open>
  C6. For every page in \<open>[0, PAGE_COUNT)\<close> and offset in \<open>[0, PAGE_SIZE)\<close>, splitting the
  composed address gives the pair back: the split of \<^verbatim>\<open>translate_virtual_address\<close>
  (\<^verbatim>\<open>>> 8\<close>, \<^verbatim>\<open>& 255\<close>) and, what is the same, \<^verbatim>\<open>>> PAGE_SHIFT\<close> and
  \<^verbatim>\<open>& (PAGE_SIZE - 1)\<close>, applied to \<^verbatim>\<open>(page << PAGE_SHIFT) | offset\<close>.
\<close>

theorem compose_split_inverse:
  assumes "0 \<le> page" "page < PAGE_COUNT" "0 \<le> offset" "offset < PAGE_SIZE"
  shows "split_vaddr (get_address page offset) = (page, offset) \<and>
     drop_bit PAGE_SHIFT (get_address page offset) = page \<and>
     get_address page offset AND (PAGE_SIZE - 1) = offset"
proof -
  have a: "get_address page offset = page * 256 + offset"
    using assms by (simp add: get_address_add PAGE_SIZE_def)
  have s: "split_vaddr (page * 256 + offset) = (page, offset)"
    using assms by (simp add: split_vaddr_eq PAGE_SIZE_def)
  then have "drop_bit 8 (page * 256 + offset) = page" "(page * 256 + offset) AND 255 = offset"
    by (simp_all add: split_vaddr_def)
  with a s show ?thesis
    by (simp add: PAGE_SHIFT_def PAGE_SIZE_def)
qed

theorem compose_split_inverse_witness:
  "split_vaddr (get_address 63 255) = (63, 255) \<and>
     drop_bit PAGE_SHIFT (get_address 63 255) = 63 \<and>
     get_address 63 255 AND (PAGE_SIZE - 1) = 255"
  using compose_split_inverse [of 63 255] by (simp add: PAGE_COUNT_def PAGE_SIZE_def)

section \<open>Translation\<close>

text \<open>
  C7. When the page-table entry at index \<^verbatim>\<open>vaddr >> 8\<close> of process \<open>p\<close> is 0,
  \<^verbatim>\<open>translate_virtual_address\<close> returns an address, with no error, and the address lies
  in page 0: it is the offset \<^verbatim>\<open>vaddr & 255\<close>, in \<open>[0, PAGE_SIZE)\<close>.
\<close>

theorem translate_unmapped_in_page_zero:
  assumes "get_page_table p m = Some T"
    and "mem_read m (get_address (uint T) (fst (split_vaddr vaddr))) = Some 0"
  shows "\<exists>a. translate_virtual_address p vaddr m = Some a \<and> 0 \<le> a \<and> a < PAGE_SIZE \<and>
           a = get_address 0 (snd (split_vaddr vaddr))"
proof -
  have "translate_virtual_address p vaddr m = Some (get_address 0 (snd (split_vaddr vaddr)))"
    using assms by (cases "split_vaddr vaddr") (simp add: translate_virtual_address_def)
  moreover have "0 \<le> get_address 0 (snd (split_vaddr vaddr))"
      "get_address 0 (snd (split_vaddr vaddr)) < PAGE_SIZE"
    by (simp_all add: get_address_zero_page split_vaddr_eq PAGE_SIZE_def)
  ultimately show ?thesis by simp
qed

theorem translate_unmapped_in_page_zero_witness:
  "get_page_table 5 initialize_mem = Some 0 \<and>
   mem_read initialize_mem (get_address (uint (0 :: 8 word)) (fst (split_vaddr 300))) = Some 0 \<and>
   translate_virtual_address 5 300 initialize_mem = Some 44"
proof -
  have g: "get_page_table 5 initialize_mem = Some 0"
    by (simp add: run_defs)
  have r: "mem_read initialize_mem (get_address (uint (0 :: 8 word)) (fst (split_vaddr 300))) = Some 0"
    by (simp add: run_defs)
  have "get_address 0 (snd (split_vaddr 300)) = 44"
    by (simp add: run_defs)
  with translate_unmapped_in_page_zero [OF g r] g r show ?thesis
    by simp
qed

text \<open>
  C9. From the initial state \<^verbatim>\<open>np 0 1\<close> succeeds (it prints no out-of-memory line); then
  \<^verbatim>\<open>sb 0 0 42\<close> and \<^verbatim>\<open>lb 0 0\<close> both resolve virtual address 0 to the physical address
  512, and the load reads the value 42 back.
\<close>

theorem store_then_load_reads_back:
  "out_after (run [NP 0 1] initial_state) = Some [] \<and>
   out_after (run [NP 0 1, SB 0 0 42, LB 0 0] initial_state) =
     Some [Store_trace 0 0 512 42, Load_trace 0 0 512 42] \<and>
   cell_after 512 (run [NP 0 1, SB 0 0 42, LB 0 0] initial_state) = Some 42"
  by (simp add: run_defs)

section \<open>The allocator\<close>

lemma alloc_scan_found:
  "i \<le> j \<Longrightarrow> j < PTP_OFFSET \<Longrightarrow> m j = 0 \<Longrightarrow> (\<forall>k. i \<le> k \<and> k < j \<longrightarrow> m k \<noteq> 0) \<Longrightarrow>
     alloc_scan i m = (j, m(j := 1))"
proof (induction i m rule: alloc_scan.induct)
  case (1 i m)
  show ?case
  proof (cases "i = j")
    case True
    with "1.prems" have "alloc_scan i m = (i, m(i := 1))"
      by (subst alloc_scan.simps) simp
    with True show ?thesis by (simp add: fun_eq_iff)
  next
    case False
    with "1.prems" have "i < PTP_OFFSET" "m i \<noteq> 0" "i + 1 \<le> j" by auto
    moreover from this "1.prems" have "alloc_scan (i + 1) m = (j, m(j := 1))"
      by (intro "1.IH") auto
    ultimately show ?thesis by (simp add: alloc_scan.simps [of i] fun_eq_iff)
  qed
qed

lemma alloc_scan_none:
  "(\<forall>k. i \<le> k \<and> k < PTP_OFFSET \<longrightarrow> m k \<noteq> 0) \<Longrightarrow> alloc_scan i m = (-1, m)"
proof (induction i m rule: alloc_scan.induct)
  case (1 i m)
  show ?case
  proof (cases "i < PTP_OFFSET")
    case True
    with "1.prems" have "m i \<noteq> 0" by simp
    moreover from True this "1.prems" have "alloc_scan (i + 1) m = (-1, m)"
      by (intro "1.IH") auto
    ultimately show ?thesis using True by (simp add: alloc_scan.simps [of i])
  next
    case False
    then show ?thesis by (simp add: alloc_scan.simps [of i])
  qed
qed



lemma alloc_scan_free_from:
  "alloc_scan i m = (case free_from i m of [] \<Rightarrow> (-1, m) | d # ds \<Rightarrow> (d, m(d := 1)))"
proof (induction i m rule: alloc_scan.induct)
  case (1 i m)
  show ?case
  proof (cases "i < PTP_OFFSET")
    case True
    then have u: "[i..PTP_OFFSET - 1] = i # [i + 1..PTP_OFFSET - 1]"
      by (simp add: upto_rec1)
    show ?thesis
    proof (cases "m i = 0")
      case True
      with \<open>i < PTP_OFFSET\<close> u show ?thesis
        by (simp add: alloc_scan.simps [of i] free_from_def)
    next
      case False
      with \<open>i < PTP_OFFSET\<close> u have "free_from i m = free_from (i + 1) m"
        by (simp add: free_from_def)
      with False \<open>i < PTP_OFFSET\<close> "1.IH" show ?thesis
        by (simp add: alloc_scan.simps [of i])
    qed
  next
    case False
    then show ?thesis
      by (simp add: alloc_scan.simps [of i] free_from_def)
  qed
qed

text \<open>
  C3. \<^verbatim>\<open>allocate_next_page\<close> returns the lowest index of \<open>[0, PTP_OFFSET)\<close> whose bitmap
  byte is 0 and sets that byte to 1, leaving every other byte as it was; when no byte of
  \<open>[0, PTP_OFFSET)\<close> is 0 it returns \<open>-1\<close> and the memory is unchanged.
\<close>

theorem allocate_lowest_free:
  "(0 \<le> j \<and> j < PTP_OFFSET \<and> m j = 0 \<and> (\<forall>k. 0 \<le> k \<and> k < j \<longrightarrow> m k \<noteq> 0) \<longrightarrow>
      allocate_next_page m = (j, m(j := 1))) \<and>
   ((\<forall>k. 0 \<le> k \<and> k < PTP_OFFSET \<longrightarrow> m k \<noteq> 0) \<longrightarrow> allocate_next_page m = (-1, m))"
  by (simp add: allocate_next_page_def alloc_scan_found alloc_scan_none)

theorem allocate_lowest_free_witness:
  "allocate_next_page ((\<lambda>a. 0)(0 := 1, 1 := 7, 3 := 1)) = (2, (\<lambda>a. 0)(0 := 1, 1 := 7, 3 := 1, 2 := 1)) \<and>
   allocate_next_page (\<lambda>a. 1) = (-1, \<lambda>a. 1)"
proof -
  have "\<forall>k::int. 0 \<le> k \<and> k < 2 \<longrightarrow> k = 0 \<or> k = 1"
    by auto
  then have h: "\<forall>k::int. 0 \<le> k \<and> k < 2 \<longrightarrow> ((\<lambda>a. 0)(0 := 1, 1 := 7, 3 := 1) :: memory) k \<noteq> 0"
    by auto
  show ?thesis
    using h allocate_lowest_free [of 2 "(\<lambda>a. 0)(0 := 1, 1 := 7, 3 := 1)"]
      allocate_lowest_free [of 0 "\<lambda>a. 1"]
    by (simp add: PTP_OFFSET_def)
qed

section \<open>Killing a process\<close>

lemma uint_cell_range: "0 \<le> uint (b :: 8 word) \<and> uint b < 256"
  using uint_bounded [of b] by simp

lemma uint_cell_pos: "b \<noteq> 0 \<Longrightarrow> 1 \<le> uint (b :: 8 word)"
proof -
  assume "b \<noteq> 0"
  then have "uint b \<noteq> 0" by (simp add: uint_0_iff)
  moreover have "0 \<le> uint b" by simp
  ultimately show ?thesis by linarith
qed

lemma kill_loop_unfold:
  "i < PAGE_SIZE \<Longrightarrow>
     kill_loop T i m =
       (if 0 \<le> get_address T i \<and> get_address T i < MEM_SIZE
        then kill_loop T (i + 1) (clear_via m (get_address T i)) else None)"
  using uint_cell_range [of "m (get_address T i)"]
  by (subst kill_loop.simps)
     (simp add: mem_read_def mem_write_def clear_via_def Let_def MEM_SIZE_def uint_0_iff)

lemma kill_loop_done: "\<not> i < PAGE_SIZE \<Longrightarrow> kill_loop T i m = Some m"
  by (subst kill_loop.simps) simp

lemma clear_via_cell: "clear_via m a x = m x \<or> clear_via m a x = 0"
  by (simp add: clear_via_def)

lemma kill_loop_untouched:
  "kill_loop T i m = Some m' \<Longrightarrow>
     (\<forall>j. i \<le> j \<and> j < PAGE_SIZE \<longrightarrow> m (get_address T j) = 0 \<or> uint (m (get_address T j)) \<noteq> a) \<Longrightarrow>
     m' a = m a"
proof (induction "nat (PAGE_SIZE - i)" arbitrary: i m)
  case 0
  then have "\<not> i < PAGE_SIZE" by simp
  with "0.prems" show ?case by (simp add: kill_loop_done)
next
  case (Suc n)
  then have lt: "i < PAGE_SIZE" by linarith
  let ?m1 = "clear_via m (get_address T i)"
  from lt Suc.prems(1) have run: "kill_loop T (i + 1) ?m1 = Some m'"
    by (simp add: kill_loop_unfold split: if_splits)
  have keep: "\<forall>j. i + 1 \<le> j \<and> j < PAGE_SIZE \<longrightarrow>
      ?m1 (get_address T j) = 0 \<or> uint (?m1 (get_address T j)) \<noteq> a"
  proof (intro allI impI)
    fix j assume j: "i + 1 \<le> j \<and> j < PAGE_SIZE"
    with Suc.prems(2) have "m (get_address T j) = 0 \<or> uint (m (get_address T j)) \<noteq> a"
      by simp
    with clear_via_cell [of m "get_address T i" "get_address T j"]
    show "?m1 (get_address T j) = 0 \<or> uint (?m1 (get_address T j)) \<noteq> a"
      by auto
  qed
  from Suc.hyps(2) have "n = nat (PAGE_SIZE - (i + 1))" by simp
  from Suc.hyps(1) [OF this run keep] have "m' a = ?m1 a" .
  moreover from Suc.prems(2) lt have "m (get_address T i) = 0 \<or> uint (m (get_address T i)) \<noteq> a"
    by simp
  then have "?m1 a = m a"
    by (auto simp add: clear_via_def)
  ultimately show ?case by simp
qed

lemma kill_loop_outside_page_zero:
  assumes "kill_loop T i m = Some m'" and "\<not> (0 \<le> a \<and> a < PAGE_SIZE)"
  shows "m' a = m a"
proof (rule kill_loop_untouched [OF assms(1)], intro allI impI)
  fix j
  from assms(2) uint_cell_range [of "m (get_address T j)"]
  show "m (get_address T j) = 0 \<or> uint (m (get_address T j)) \<noteq> a"
    by (auto simp add: PAGE_SIZE_def)
qed


lemma kill_loop_total:
  "0 \<le> T \<Longrightarrow> T < PAGE_COUNT \<Longrightarrow> 0 \<le> i \<Longrightarrow> \<exists>m'. kill_loop T i m = Some m'"
proof (induction "nat (PAGE_SIZE - i)" arbitrary: i m)
  case 0
  then have "\<not> i < PAGE_SIZE" by simp
  then show ?case by (simp add: kill_loop_done)
next
  case (Suc n)
  then have lt: "i < PAGE_SIZE" by linarith
  with Suc.prems have "get_address T i = T * 256 + i"
    by (simp add: get_address_add PAGE_SIZE_def)
  with Suc.prems lt have "0 \<le> get_address T i \<and> get_address T i < MEM_SIZE"
    by (simp add: PAGE_SIZE_def PAGE_COUNT_def MEM_SIZE_def)
  with lt have "kill_loop T i m = kill_loop T (i + 1) (clear_via m (get_address T i))"
    by (simp add: kill_loop_unfold)
  moreover from Suc.hyps(2) have "n = nat (PAGE_SIZE - (i + 1))" by simp
  from Suc.hyps(1) [OF this] Suc.prems
  have "\<exists>m'. kill_loop T (i + 1) (clear_via m (get_address T i)) = Some m'"
    by simp
  ultimately show ?case by simp
qed

lemma kill_loop_page_zero:
  "0 \<le> i \<Longrightarrow> kill_loop 0 i m = Some (foldl clear_via m [i..PAGE_SIZE - 1])"
proof (induction "nat (PAGE_SIZE - i)" arbitrary: i m)
  case 0
  then have "\<not> i < PAGE_SIZE" by simp
  then show ?case by (simp add: kill_loop_done)
next
  case (Suc n)
  then have lt: "i < PAGE_SIZE" by linarith
  then have u: "[i..PAGE_SIZE - 1] = i # [i + 1..PAGE_SIZE - 1]"
    by (simp add: upto_rec1)
  from lt Suc.prems have "kill_loop 0 i m = kill_loop 0 (i + 1) (clear_via m i)"
    by (simp add: kill_loop_unfold get_address_zero_page PAGE_SIZE_def MEM_SIZE_def)
  moreover from Suc.hyps(2) have "n = nat (PAGE_SIZE - (i + 1))" by simp
  from Suc.hyps(1) [OF this] Suc.prems
  have "kill_loop 0 (i + 1) (clear_via m i) = Some (foldl clear_via (clear_via m i) [i + 1..PAGE_SIZE - 1])"
    by simp
  ultimately show ?case using u by simp
qed

lemma kill_process_eq:
  assumes "get_page_table p m = Some T"
  shows "kill_process p m =
           (case kill_loop (uint T) 0 m of None \<Rightarrow> None | Some m1 \<Rightarrow> Some (m1(uint T := 0)))"
  using assms uint_cell_range [of T]
  by (simp add: kill_process_def mem_write_def MEM_SIZE_def Let_def split: option.splits)

text \<open>
  C2. When the directory entry of process \<open>p\<close> is 0, \<^verbatim>\<open>kill_process\<close> returns, and it has
  used page 0 as the page table: scanning the offsets \<open>0, \<dots>, PAGE_SIZE - 1\<close> in order, at an
  offset whose byte in page 0 is nonzero when the scan reaches it, it has cleared the byte at
  the index equal to that byte's value; at the end it has cleared the byte at index 0, so
  page 0 is marked free.
\<close>

theorem kill_unmapped_process_uses_page_zero:
  assumes "get_page_table p m = Some 0"
  shows "kill_process p m = Some (kill_through_page_zero m) \<and> kill_through_page_zero m 0 = 0"
  using kill_loop_page_zero [of 0 m]
  by (simp add: kill_process_eq [OF assms] kill_through_page_zero_def)

theorem kill_unmapped_process_uses_page_zero_witness:
  "get_page_table 5 initialize_mem = Some 0 \<and>
   kill_process 5 initialize_mem = Some (kill_through_page_zero initialize_mem) \<and>
   kill_through_page_zero initialize_mem 0 = 0"
proof -
  have g: "get_page_table 5 initialize_mem = Some 0"
    by (simp add: run_defs)
  with kill_unmapped_process_uses_page_zero [OF g] show ?thesis
    by simp
qed

text \<open>
  C10. When the directory entry \<open>T\<close> of process \<open>p\<close> is nonzero, every byte that
  \<^verbatim>\<open>kill_process\<close> changes has its index in page 0; the page-table page \<open>T\<close> itself keeps
  all its bytes, so its nonzero entries persist. The operation has a result whenever \<open>T\<close> is
  a page number (for \<open>T \<ge> PAGE_COUNT\<close> the page table would lie outside the array).
\<close>

theorem kill_process_writes_page_zero_only:
  assumes "get_page_table p m = Some T" and "T \<noteq> 0"
  shows "(uint T < PAGE_COUNT \<longrightarrow> kill_process p m \<noteq> None) \<and>
         (\<forall>m'. kill_process p m = Some m' \<longrightarrow>
            (\<forall>a. \<not> (0 \<le> a \<and> a < PAGE_SIZE) \<longrightarrow> m' a = m a) \<and>
            (\<forall>i. 0 \<le> i \<and> i < PAGE_SIZE \<longrightarrow>
               m' (get_address (uint T) i) = m (get_address (uint T) i)))"
proof (intro conjI allI impI)
  assume "uint T < PAGE_COUNT"
  with kill_loop_total [of "uint T" 0 m] obtain m1 where "kill_loop (uint T) 0 m = Some m1"
    by auto
  then show "kill_process p m \<noteq> None"
    by (simp add: kill_process_eq [OF assms(1)])
next
  fix m' a
  assume k: "kill_process p m = Some m'" and a: "\<not> (0 \<le> a \<and> a < PAGE_SIZE)"
  from k obtain m1 where m1: "kill_loop (uint T) 0 m = Some m1"
      and m': "m' = m1(uint T := 0)"
    by (auto simp add: kill_process_eq [OF assms(1)] split: option.splits)
  from a uint_cell_range [of T] have "a \<noteq> uint T"
    by (auto simp add: PAGE_SIZE_def)
  with m' kill_loop_outside_page_zero [OF m1 a] show "m' a = m a"
    by simp
next
  fix m' i
  assume k: "kill_process p m = Some m'" and i: "0 \<le> i \<and> i < PAGE_SIZE"
  from k obtain m1 where m1: "kill_loop (uint T) 0 m = Some m1"
      and m': "m' = m1(uint T := 0)"
    by (auto simp add: kill_process_eq [OF assms(1)] split: option.splits)
  from assms(2) have "1 \<le> uint T"
    by (rule uint_cell_pos)
  with i have a: "\<not> (0 \<le> get_address (uint T) i \<and> get_address (uint T) i < PAGE_SIZE)"
    by (simp add: get_address_add PAGE_SIZE_def)
  with uint_cell_range [of T] have "get_address (uint T) i \<noteq> uint T"
    by (auto simp add: PAGE_SIZE_def)
  with m' kill_loop_outside_page_zero [OF m1 a] 
  show "m' (get_address (uint T) i) = m (get_address (uint T) i)"
    by simp
qed


theorem kill_process_writes_page_zero_only_witness:
  "get_page_table 0 ((\<lambda>a. 0)(0 := 1, 1 := 1, 64 := 1, 2 := 1, 256 := 2)) = Some 1 \<and>
   (\<exists>m'. kill_process 0 ((\<lambda>a. 0)(0 := 1, 1 := 1, 64 := 1, 2 := 1, 256 := 2)) = Some m' \<and>
      m' 256 = 2 \<and> m' 16000 = 0)"
proof -
  let ?m = "(\<lambda>a. 0)(0 := 1, 1 := 1, 64 := 1, 2 := 1, 256 := 2) :: memory"
  have g: "get_page_table 0 ?m = Some 1"
    by (simp add: run_defs)
  have a: "get_address (uint (1 :: 8 word)) 0 = 256"
    by (simp add: run_defs)
  note t = kill_process_writes_page_zero_only [OF g, simplified]
  from t obtain m' where k: "kill_process 0 ?m = Some m'"
    by (auto simp add: PAGE_COUNT_def)
  from t k have "m' (get_address (uint (1 :: 8 word)) 0) = ?m (get_address (uint (1 :: 8 word)) 0)"
      "m' 16000 = ?m 16000"
    by (simp_all add: PAGE_SIZE_def)
  with a g k show ?thesis
    by simp
qed

text \<open>
  C8 does not hold of the code. \<^verbatim>\<open>kill_process\<close> has no statement that writes the
  directory, but it clears the byte at every index it reads as a nonzero entry of the page
  table, and \<^verbatim>\<open>new_process\<close> does not clear the page it takes as page table. The data page
  2 of process 0 holds the value 66 stored by \<^verbatim>\<open>sb 0 0 66\<close>; after \<^verbatim>\<open>kp 0\<close> the page is
  free with that byte in it, and \<^verbatim>\<open>np 2 0\<close> takes it as the page table of process 2. Then
  \<^verbatim>\<open>kp 2\<close> reads 66 as an entry and clears the byte at index 66, the directory byte of
  process 2: it holds 0 afterwards, not the page number 2.
\<close>

theorem kill_process_clears_directory_byte:
  "out_after (run [NP 0 1, SB 0 0 66, KP 0, NP 1 0, NP 2 0] initial_state) =
     Some [Store_trace 0 0 512 66] \<and>
   cell_after (PTP_OFFSET + 2) (run [NP 0 1, SB 0 0 66, KP 0, NP 1 0, NP 2 0] initial_state) = Some 2 \<and>
   cell_after (PTP_OFFSET + 2) (run [NP 0 1, SB 0 0 66, KP 0, NP 1 0, NP 2 0, KP 2] initial_state) = Some 0"
  by (simp add: run_defs)

text \<open>
  Where the page table holds nothing but page numbers the directory byte is out of reach:
  when the index \<open>PTP_OFFSET + p\<close> is neither \<open>T\<close> nor an entry of page \<open>T\<close>,
  \<^verbatim>\<open>kill_process\<close> leaves the directory byte holding \<open>T\<close>.
\<close>

lemma kill_process_keeps_directory_entry:
  assumes "get_page_table p m = Some T" and "uint T \<noteq> PTP_OFFSET + p"
    and "\<forall>i. 0 \<le> i \<and> i < PAGE_SIZE \<longrightarrow> uint (m (get_address (uint T) i)) \<noteq> PTP_OFFSET + p"
  shows "(uint T < PAGE_COUNT \<longrightarrow> kill_process p m \<noteq> None) \<and>
         (\<forall>m'. kill_process p m = Some m' \<longrightarrow> get_page_table p m' = Some T)"
proof (intro conjI allI impI)
  assume "uint T < PAGE_COUNT"
  with kill_loop_total [of "uint T" 0 m] obtain m1 where "kill_loop (uint T) 0 m = Some m1"
    by auto
  then show "kill_process p m \<noteq> None"
    by (simp add: kill_process_eq [OF assms(1)])
next
  fix m'
  assume "kill_process p m = Some m'"
  then obtain m1 where m1: "kill_loop (uint T) 0 m = Some m1"
      and m': "m' = m1(uint T := 0)"
    by (auto simp add: kill_process_eq [OF assms(1)] split: option.splits)
  have "m1 (PTP_OFFSET + p) = m (PTP_OFFSET + p)"
    using assms(3) by (intro kill_loop_untouched [OF m1]) simp
  with m' assms(2) have "m' (PTP_OFFSET + p) = m (PTP_OFFSET + p)"
    by simp
  with assms(1) show "get_page_table p m' = Some T"
    by (simp add: get_page_table_def mem_read_def get_address_zero_page split: if_splits)
qed

lemma kill_process_keeps_directory_entry_example:
  "\<exists>m'. kill_process 0 ((\<lambda>a. 0)(0 := 1, 1 := 1, 64 := 1, 2 := 1, 256 := 2)) = Some m' \<and>
      get_page_table 0 m' = Some 1"
proof -
  let ?m = "(\<lambda>a. 0)(0 := 1, 1 := 1, 64 := 1, 2 := 1, 256 := 2) :: memory"
  have g: "get_page_table 0 ?m = Some 1"
    by (simp add: run_defs)
  have t: "uint (1 :: 8 word) \<noteq> PTP_OFFSET + 0"
    by (simp add: PTP_OFFSET_def)
  have e: "\<forall>i. 0 \<le> i \<and> i < PAGE_SIZE \<longrightarrow>
      uint (?m (get_address (uint (1 :: 8 word)) i)) \<noteq> PTP_OFFSET + 0"
    by (simp add: PTP_OFFSET_def)
  have c: "uint (1 :: 8 word) < PAGE_COUNT"
    by (simp add: PAGE_COUNT_def)
  note r = kill_process_keeps_directory_entry [OF g t e]
  from r c have "kill_process 0 ?m \<noteq> None"
    by blast
  then obtain m' where k: "kill_process 0 ?m = Some m'"
    by blast
  with r have "get_page_table 0 m' = Some 1"
    by blast
  with k show ?thesis
    by blast
qed

section \<open>Page 0 across the commands\<close>

lemma page_number_cell: "1 \<le> T \<Longrightarrow> T < PTP_OFFSET \<Longrightarrow> (word_of_int T :: 8 word) \<noteq> 0"
proof -
  assume "1 \<le> T" "T < PTP_OFFSET"
  then have "\<not> 256 dvd T"
    unfolding PTP_OFFSET_def by presburger
  then show ?thesis
    by (simp add: word_of_int_eq_0_iff)
qed


lemma new_process_loop_unfold:
  "i < k \<Longrightarrow>
     new_process_loop p T i k s =
       (case allocate_next_page (mem s) of (page, m1) \<Rightarrow>
          if page = -1 then Some (emit (OOM_data_page p) (s\<lparr>mem := m1\<rparr>))
          else
            (case mem_write m1 (get_address T i) (word_of_int page) of
               None \<Rightarrow> None
             | Some m2 \<Rightarrow> new_process_loop p T (i + 1) k (s\<lparr>mem := m2\<rparr>)))"
  by (subst new_process_loop.simps) simp










section \<open>Running out of pages in new_process\<close>

lemma set_free_from: "set (free_from i m) = {j. i \<le> j \<and> j < PTP_OFFSET \<and> m j = 0}"
  by (auto simp add: free_from_def)

lemma sorted_free_from: "sorted_wrt (<) (free_from i m)"
  by (auto simp add: free_from_def strict_sorted_iff intro: sorted_wrt_filter)

lemma free_from_allocated:
  assumes "free_from i m = d # ds"
  shows "free_from i (m(d := 1)) = ds"
proof -
  have "free_from i (m(d := 1)) = filter (\<lambda>j. j \<noteq> d) (free_from i m)"
    unfolding free_from_def filter_filter by (rule filter_cong) auto
  also from sorted_free_from [of i m] assms have "\<dots> = ds"
    by (auto simp add: filter_id_conv)
  finally show ?thesis .
qed

lemma free_from_other_cell:
  assumes "PTP_OFFSET \<le> a \<or> (m a \<noteq> 0 \<and> w \<noteq> 0)"
  shows "free_from i (m(a := w)) = free_from i m"
  unfolding free_from_def using assms by (intro filter_cong) auto

lemma allocate_next_page_free_pages:
  "allocate_next_page m = (case free_pages m of [] \<Rightarrow> (-1, m) | d # ds \<Rightarrow> (d, m(d := 1)))"
  by (simp add: allocate_next_page_def free_pages_def alloc_scan_free_from)

lemma free_pages_head:
  assumes "free_pages m = d # ds"
  shows "0 \<le> d" "d < PTP_OFFSET" "m d = 0" "\<forall>x\<in>set ds. d < x \<and> x < PTP_OFFSET"
    "\<forall>j. 0 \<le> j \<and> j < d \<longrightarrow> m j \<noteq> 0"
proof -
  have s: "set (d # ds) = {j. 0 \<le> j \<and> j < PTP_OFFSET \<and> m j = 0}"
    using set_free_from [of 0 m] assms by (simp add: free_pages_def)
  then have "d \<in> {j. 0 \<le> j \<and> j < PTP_OFFSET \<and> m j = 0}" by auto
  then show "0 \<le> d" "d < PTP_OFFSET" "m d = 0" by simp_all
  from sorted_free_from [of 0 m] assms have lt: "\<forall>x\<in>set ds. d < x"
    by (simp add: free_pages_def)
  moreover from s have "\<forall>x\<in>set ds. x < PTP_OFFSET" by auto
  ultimately show "\<forall>x\<in>set ds. d < x \<and> x < PTP_OFFSET" by simp
  show "\<forall>j. 0 \<le> j \<and> j < d \<longrightarrow> m j \<noteq> 0"
  proof (intro allI impI notI)
    fix j assume j: "0 \<le> j \<and> j < d" and "m j = 0"
    with \<open>d < PTP_OFFSET\<close> have "j \<in> {j. 0 \<le> j \<and> j < PTP_OFFSET \<and> m j = 0}" by simp
    with s have "j \<in> set (d # ds)" by simp
    with lt j show False by auto
  qed
qed

lemma new_process_loop_fails:
  "free_pages (mem s) = ds \<Longrightarrow> i + int (length ds) < k \<Longrightarrow> 0 \<le> T \<Longrightarrow> T < PAGE_COUNT \<Longrightarrow>
   0 \<le> i \<Longrightarrow> i + int (length ds) \<le> PAGE_SIZE \<Longrightarrow> (T = 0 \<longrightarrow> (\<forall>x\<in>set ds. i < x)) \<Longrightarrow>
     new_process_loop p T i k s =
       Some (emit (OOM_data_page p) (s\<lparr>mem := map_pages T i ds (mem s)\<rparr>))"
proof (induction ds arbitrary: i s)
  case Nil
  then show ?case
    by (simp add: new_process_loop_unfold allocate_next_page_free_pages)
next
  case (Cons d ds)
  note fp = free_pages_head [OF Cons.prems(1)]
  let ?m1 = "(mem s)(d := 1)"
  let ?A = "get_address T i"
  let ?m2 = "?m1(?A := word_of_int d)"
  define s2 where "s2 = s\<lparr>mem := ?m2\<rparr>"
  have s2: "mem s2 = ?m2" "s2\<lparr>mem := map_pages T (i + 1) ds ?m2\<rparr> = s\<lparr>mem := map_pages T (i + 1) ds ?m2\<rparr>"
    by (simp_all add: s2_def)
  from Cons.prems have lt: "i < k" and i256: "i < 256"
    by (simp_all add: PAGE_SIZE_def)
  with Cons.prems have A: "?A = T * 256 + i"
    by (simp add: get_address_add)
  with Cons.prems i256 have inr: "0 \<le> ?A \<and> ?A < MEM_SIZE"
    by (simp add: PAGE_COUNT_def MEM_SIZE_def)
  from fp have dn: "d \<noteq> -1" by simp
  have al: "allocate_next_page (mem s) = (d, ?m1)"
    by (simp add: allocate_next_page_free_pages Cons.prems(1))
  have step: "new_process_loop p T i k s = new_process_loop p T (i + 1) k s2"
    using lt al dn inr by (simp add: new_process_loop_unfold mem_write_def s2_def)
  have f1: "free_pages ?m1 = ds"
    using Cons.prems(1) unfolding free_pages_def by (rule free_from_allocated)
  have "PTP_OFFSET \<le> ?A \<or> (?m1 ?A \<noteq> 0 \<and> (word_of_int d :: 8 word) \<noteq> 0)"
  proof (cases "T = 0")
    case True
    with Cons.prems(7) have "i < d" by simp
    with fp Cons.prems(5) have "mem s i \<noteq> 0" "1 \<le> d" by simp_all
    with fp \<open>i < d\<close> True A show ?thesis
      by (simp add: page_number_cell)
  next
    case False
    with Cons.prems(3,5) A show ?thesis
      by (simp add: PTP_OFFSET_def)
  qed
  then have "free_pages ?m2 = free_pages ?m1"
    unfolding free_pages_def by (rule free_from_other_cell)
  with f1 have f2: "free_pages (mem s2) = ds" by (simp only: s2)
  have inv: "T = 0 \<longrightarrow> (\<forall>x\<in>set ds. i + 1 < x)"
  proof
    assume "T = 0"
    with Cons.prems(7) have "i < d" by simp
    with fp(4) show "\<forall>x\<in>set ds. i + 1 < x" by auto
  qed
  from Cons.prems have "i + 1 + int (length ds) < k" "0 \<le> i + 1" "i + 1 + int (length ds) \<le> PAGE_SIZE"
    by simp_all
  from Cons.IH [OF f2 this(1) Cons.prems(3,4) this(2,3) inv]
  have "new_process_loop p T (i + 1) k s2 =
      Some (emit (OOM_data_page p) (s\<lparr>mem := map_pages T (i + 1) ds ?m2\<rparr>))"
    by (simp only: s2)
  with step show ?case by (simp only: map_pages.simps)
qed

lemma uint_page_number: "0 \<le> x \<Longrightarrow> x < PTP_OFFSET \<Longrightarrow> uint (word_of_int x :: 8 word) = x"
  by (simp add: uint_word_of_int PTP_OFFSET_def)

lemma map_pages_frame:
  "a \<notin> set ds \<Longrightarrow> (\<forall>j<length ds. a \<noteq> get_address T (i + int j)) \<Longrightarrow>
     map_pages T i ds m a = m a"
proof (induction ds arbitrary: i m)
  case Nil
  then show ?case by simp
next
  case (Cons d ds)
  from Cons.prems(2) have "a \<noteq> get_address T (i + int 0)" by blast
  then have a0: "a \<noteq> get_address T i" by simp
  have "\<forall>j<length ds. a \<noteq> get_address T (i + 1 + int j)"
  proof (intro allI impI)
    fix j assume "j < length ds"
    with Cons.prems(2) have "a \<noteq> get_address T (i + int (Suc j))" by auto
    then show "a \<noteq> get_address T (i + 1 + int j)" by (simp add: add.assoc)
  qed
  with Cons.prems(1) Cons.IH [of "i + 1"]
  have "map_pages T (i + 1) ds (m(d := 1, get_address T i := word_of_int d)) a =
      (m(d := 1, get_address T i := word_of_int d)) a"
    by simp
  with a0 Cons.prems(1) show ?case by simp
qed

lemma map_pages_allocated:
  "(\<forall>x\<in>set ds. (word_of_int x :: 8 word) \<noteq> 0) \<Longrightarrow> m a \<noteq> 0 \<or> a \<in> set ds \<Longrightarrow>
     map_pages T i ds m a \<noteq> 0"
proof (induction ds arbitrary: i m)
  case Nil
  then show ?case by simp
next
  case (Cons d ds)
  let ?m' = "m(d := 1, get_address T i := word_of_int d)"
  from Cons.prems have "?m' a \<noteq> 0 \<or> a \<in> set ds"
    by auto
  with Cons.prems(1) have "map_pages T (i + 1) ds ?m' a \<noteq> 0"
    by (intro Cons.IH) simp_all
  then show ?case by simp
qed

lemma map_pages_mapped:
  "j < length ds \<Longrightarrow> 0 \<le> T \<Longrightarrow> 0 \<le> i \<Longrightarrow> i + int (length ds) \<le> PAGE_SIZE \<Longrightarrow>
   sorted_wrt (<) ds \<Longrightarrow> (\<forall>x\<in>set ds. x < PTP_OFFSET \<and> (T = 0 \<longrightarrow> i < x)) \<Longrightarrow>
     map_pages T i ds m (get_address T (i + int j)) = word_of_int (ds ! j)"
proof (induction ds arbitrary: i m j)
  case Nil
  then show ?case by simp
next
  case (Cons d ds)
  let ?m' = "m(d := 1, get_address T i := word_of_int d)"
  have addr: "get_address T (i + int n) = T * 256 + i + int n" if "n \<le> length ds" for n
    using that Cons.prems(3,4) by (simp add: get_address_add PAGE_SIZE_def)
  show ?case
  proof (cases j)
    case 0
    have "get_address T i \<notin> set ds"
    proof
      assume "get_address T i \<in> set ds"
      with Cons.prems(5,6) have "get_address T i < PTP_OFFSET" "T = 0 \<longrightarrow> i < get_address T i" "d < get_address T i"
        by auto
      with addr [of 0] Cons.prems(2,3) show False
        by (cases "T = 0") (simp_all add: PTP_OFFSET_def)
    qed
    moreover have "\<forall>n<length ds. get_address T i \<noteq> get_address T (i + 1 + int n)"
    proof (intro allI impI)
      fix n assume "n < length ds"
      with addr [of 0] addr [of "Suc n"] show "get_address T i \<noteq> get_address T (i + 1 + int n)"
        by (simp add: add.assoc)
    qed
    ultimately have "map_pages T (i + 1) ds ?m' (get_address T i) = ?m' (get_address T i)"
      by (rule map_pages_frame)
    with 0 show ?thesis by simp
  next
    case (Suc j')
    with Cons.prems have "j' < length ds" "0 \<le> i + 1" "i + 1 + int (length ds) \<le> PAGE_SIZE"
      "sorted_wrt (<) ds" "\<forall>x\<in>set ds. x < PTP_OFFSET \<and> (T = 0 \<longrightarrow> i + 1 < x)"
      by auto
    then have "map_pages T (i + 1) ds ?m' (get_address T (i + 1 + int j')) = word_of_int (ds ! j')"
      using Cons.prems(2) by (intro Cons.IH)
    with Suc show ?thesis
      by (simp add: add.assoc)
  qed
qed


lemma length_free_pages: "length (free_pages m) \<le> 64"
proof -
  have "length (free_pages m) \<le> length [0..PTP_OFFSET - 1]"
    unfolding free_pages_def free_from_def by (rule length_filter_le)
  then show ?thesis by (simp add: PTP_OFFSET_def)
qed

lemma new_process_no_page_table:
  assumes "free_pages (mem s) = []"
  shows "new_process p k s = Some (emit (OOM_page_table p) s)"
  using assms by (simp add: new_process_def allocate_next_page_free_pages)

lemma new_process_no_data_page:
  assumes p: "0 \<le> p" "p < PAGE_COUNT" and fr: "free_pages (mem s) = T # ds" and k: "int (length ds) < k"
  defines "m2 \<equiv> (mem s)(T := 1, PTP_OFFSET + p := word_of_int T)"
  shows "new_process p k s = Some (emit (OOM_data_page p) (s\<lparr>mem := map_pages T 0 ds m2\<rparr>))"
    and "map_pages T 0 ds m2 T \<noteq> 0"
    and "map_pages T 0 ds m2 (PTP_OFFSET + p) = word_of_int T"
    and "\<forall>j<length ds. map_pages T 0 ds m2 (ds ! j) \<noteq> 0 \<and>
           uint (map_pages T 0 ds m2 (get_address T (int j))) = ds ! j"
    and "\<forall>a. a \<notin> set (T # ds) \<and> a \<noteq> PTP_OFFSET + p \<and> (\<forall>j<length ds. a \<noteq> get_address T (int j)) \<longrightarrow>
           map_pages T 0 ds m2 a = mem s a"
proof -
  note fp = free_pages_head [OF fr]
  from length_free_pages [of "mem s"] fr have len: "int (length ds) \<le> 63" by simp
  from fp have T: "0 \<le> T" "T < PAGE_COUNT" "T \<noteq> -1"
    by (simp_all add: PAGE_COUNT_def PTP_OFFSET_def)
  from sorted_free_from [of 0 "mem s"] fr have srt: "sorted_wrt (<) ds"
    by (simp add: free_pages_def)
  from fp have pages: "\<forall>x\<in>set ds. 1 \<le> x \<and> x < PTP_OFFSET" by auto
  then have cells: "\<forall>x\<in>set ds. (word_of_int x :: 8 word) \<noteq> 0"
    by (simp add: page_number_cell)
  have addr: "get_address T (int j) = T * 256 + int j" if "j < length ds" for j
    using that len by (simp add: get_address_add)
  have dir: "PTP_OFFSET + p \<noteq> get_address T (int j)" if "j < length ds" for j
    using that addr [OF that] len p T by (cases "T = 0") (simp_all add: PTP_OFFSET_def PAGE_COUNT_def)
  define s2 where "s2 = s\<lparr>mem := m2\<rparr>"
  have al: "allocate_next_page (mem s) = (T, (mem s)(T := 1))"
    by (simp add: allocate_next_page_free_pages fr)
  have sp: "set_page_table p T ((mem s)(T := 1)) = Some m2"
    using p by (simp add: set_page_table_def mem_write_def get_address_zero_page m2_def
        PTP_OFFSET_def PAGE_COUNT_def MEM_SIZE_def)
  have start: "new_process p k s = new_process_loop p T 0 k s2"
    using al sp T by (simp add: new_process_def s2_def)
  have "free_pages ((mem s)(T := 1)) = ds"
    using fr unfolding free_pages_def by (rule free_from_allocated)
  moreover have "free_pages m2 = free_pages ((mem s)(T := 1))"
    unfolding free_pages_def m2_def using p by (intro free_from_other_cell) simp
  ultimately have f2: "free_pages (mem s2) = ds"
    by (simp add: s2_def)
  have "new_process_loop p T 0 k s2 =
      Some (emit (OOM_data_page p) (s2\<lparr>mem := map_pages T 0 ds (mem s2)\<rparr>))"
    using f2 k T len fp by (intro new_process_loop_fails) (auto simp add: PAGE_SIZE_def)
  with start show "new_process p k s = Some (emit (OOM_data_page p) (s\<lparr>mem := map_pages T 0 ds m2\<rparr>))"
    by (simp add: s2_def)
  from p fp have m2T: "m2 T = 1"
    by (simp add: m2_def)
  then show "map_pages T 0 ds m2 T \<noteq> 0"
    using cells by (intro map_pages_allocated) simp_all
  have "PTP_OFFSET + p \<notin> set ds"
    using pages p by auto
  then have "map_pages T 0 ds m2 (PTP_OFFSET + p) = m2 (PTP_OFFSET + p)"
    using dir by (intro map_pages_frame) simp_all
  then show "map_pages T 0 ds m2 (PTP_OFFSET + p) = word_of_int T"
    by (simp add: m2_def)
  show "\<forall>j<length ds. map_pages T 0 ds m2 (ds ! j) \<noteq> 0 \<and>
           uint (map_pages T 0 ds m2 (get_address T (int j))) = ds ! j"
  proof (intro allI impI conjI)
    fix j assume j: "j < length ds"
    then have "ds ! j \<in> set ds" by simp
    then show "map_pages T 0 ds m2 (ds ! j) \<noteq> 0"
      using cells by (intro map_pages_allocated) simp_all
    have "map_pages T 0 ds m2 (get_address T (0 + int j)) = word_of_int (ds ! j)"
      using j T len srt fp by (intro map_pages_mapped) (auto simp add: PAGE_SIZE_def)
    moreover from pages \<open>ds ! j \<in> set ds\<close> have "0 \<le> ds ! j" "ds ! j < PTP_OFFSET"
      by auto
    ultimately show "uint (map_pages T 0 ds m2 (get_address T (int j))) = ds ! j"
      by (simp add: uint_page_number)
  qed
  show "\<forall>a. a \<notin> set (T # ds) \<and> a \<noteq> PTP_OFFSET + p \<and> (\<forall>j<length ds. a \<noteq> get_address T (int j)) \<longrightarrow>
           map_pages T 0 ds m2 a = mem s a"
  proof (intro allI impI)
    fix a
    assume a: "a \<notin> set (T # ds) \<and> a \<noteq> PTP_OFFSET + p \<and> (\<forall>j<length ds. a \<noteq> get_address T (int j))"
    then have "map_pages T 0 ds m2 a = m2 a"
      by (intro map_pages_frame) simp_all
    with a show "map_pages T 0 ds m2 a = mem s a"
      by (simp add: m2_def)
  qed
qed

lemma free_pages_initial: "free_pages (mem initial_state) = 1 # [2..63]"
proof -
  have u: "[0..63] = 0 # 1 # [2..63]"
    by (simp add: upto_rec1)
  have "filter (\<lambda>j. initialize_mem j = 0) [2..63] = [2..63]"
    by (rule filter_True) (simp add: initialize_mem_def get_address_zero_page)
  then show ?thesis
    by (simp add: free_pages_def free_from_def PTP_OFFSET_def u initial_state_def)
      (simp add: initialize_mem_def get_address_zero_page)
qed

text \<open>
  C5, as stated for every process number, fails. \<^verbatim>\<open>np 192 70\<close> on the initial state takes
  page 1 as page table and records it at \<open>PTP_OFFSET + 192 = 256\<close>, which is entry 0 of
  page 1; the first data page, 2, is then written over it. When the allocation of data page
  62 fails, page 1 is still allocated but the directory byte of process 192 holds 2.
\<close>

theorem new_process_overwrites_directory_counterexample:
  "out_after (run [NP 192 70] initial_state) = Some [OOM_data_page 192] \<and>
   cell_after 1 (run [NP 192 70] initial_state) = Some 1 \<and>
   cell_after (PTP_OFFSET + 192) (run [NP 192 70] initial_state) = Some 2"
proof -
  let ?m1 = "(mem initial_state)(1 := 1)"
  let ?m2 = "?m1(256 := 1)"
  let ?m3 = "?m2(2 := 1, get_address 1 0 := word_of_int 2)"
  define s2 where "s2 = initial_state\<lparr>mem := ?m2\<rparr>"
  have s2: "mem s2 = ?m2" "out s2 = []"
    by (simp_all add: s2_def initial_state_def)
  have al: "allocate_next_page (mem initial_state) = (1, ?m1)"
    by (simp add: allocate_next_page_free_pages free_pages_initial)
  have sp: "set_page_table 192 1 ?m1 = Some ?m2"
    by (simp add: set_page_table_def mem_write_def get_address_zero_page PTP_OFFSET_def MEM_SIZE_def)
  have start: "new_process 192 70 initial_state = new_process_loop 192 1 0 70 s2"
    using al sp by (simp add: new_process_def s2_def)
  have "free_pages ?m1 = [2..63]"
    using free_pages_initial unfolding free_pages_def by (rule free_from_allocated)
  moreover have "free_pages ?m2 = free_pages ?m1"
    unfolding free_pages_def by (intro free_from_other_cell) (simp add: PTP_OFFSET_def)
  ultimately have f2: "free_pages (mem s2) = [2..63]"
    by (simp only: s2)
  have "new_process_loop 192 1 0 70 s2 =
      Some (emit (OOM_data_page 192) (s2\<lparr>mem := map_pages 1 0 [2..63] (mem s2)\<rparr>))"
    using f2 by (intro new_process_loop_fails) (simp_all add: PAGE_COUNT_def PAGE_SIZE_def)
  with start have r: "run [NP 192 70] initial_state =
      Some (emit (OOM_data_page 192) (s2\<lparr>mem := map_pages 1 0 [2..63] ?m2\<rparr>))"
    by (simp only: s2) simp
  have addr: "get_address 1 i = 256 + i" if "0 \<le> i" "i < 256" for i
    using that by (simp add: get_address_add)
  have "map_pages 1 0 [2..63] ?m2 1 = ?m2 1"
  proof (rule map_pages_frame)
    show "1 \<notin> set [2..63]" by simp
    show "\<forall>j<length [2..63]. 1 \<noteq> get_address 1 (0 + int j)"
      by (simp add: addr)
  qed
  then have c1: "map_pages 1 0 [2..63] ?m2 1 = 1"
    by simp
  have u: "[2..63] = 2 # [3..63]"
    by (simp add: upto_rec1)
  have "map_pages 1 (0 + 1) [3..63] ?m3 256 = ?m3 256"
  proof (rule map_pages_frame)
    show "256 \<notin> set [3..63]" by simp
    show "\<forall>j<length [3..63]. 256 \<noteq> get_address 1 (0 + 1 + int j)"
      by (simp add: addr)
  qed
  moreover have "?m3 256 = 2"
    by (simp add: addr)
  ultimately have c2: "map_pages 1 0 [2..63] ?m2 256 = 2"
    by (simp only: u map_pages.simps)
  from r c1 c2 s2 show ?thesis
    by (simp add: out_after_def cell_after_def emit_def PTP_OFFSET_def)
qed

text \<open>
  C5, amended with the range of the process number. Let \<open>T # ds\<close> be the free pages
  before \<^verbatim>\<open>new_process(p, k)\<close>, in increasing order.
  With no free page at all, the call prints the out-of-memory line for the page table and
  the memory is unchanged. With \<open>i = length ds < k\<close>, for a process number in
  \<open>[0, PAGE_COUNT)\<close>, the allocation of data page \<open>i\<close> fails: the call returns after printing
  the out-of-memory line for a data page, with no rollback. The memory is the one the
  successful steps left (the failed allocation adds no write): page \<open>T\<close> is allocated and
  recorded in the directory, the data pages \<open>ds\<close> are allocated and entry \<open>j\<close> of the page
  table holds \<open>ds ! j\<close> for every \<open>j < i\<close>, and every other byte is as before.
\<close>

theorem new_process_out_of_memory:
  "(free_pages (mem s) = [] \<longrightarrow> new_process p k s = Some (emit (OOM_page_table p) s)) \<and>
   (0 \<le> p \<and> p < PAGE_COUNT \<and> free_pages (mem s) = T # ds \<and> int (length ds) < k \<longrightarrow>
      (\<exists>s'. new_process p k s = Some s' \<and> out s' = out s @ [OOM_data_page p] \<and>
         mem s' = map_pages T 0 ds ((mem s)(T := 1, PTP_OFFSET + p := word_of_int T)) \<and>
         mem s' T \<noteq> 0 \<and>
         (\<exists>b. get_page_table p (mem s') = Some b \<and> uint b = T) \<and>
         (\<forall>j<length ds. mem s' (ds ! j) \<noteq> 0 \<and> uint (mem s' (get_address T (int j))) = ds ! j) \<and>
         (\<forall>a. a \<notin> set (T # ds) \<and> a \<noteq> PTP_OFFSET + p \<and> (\<forall>j<length ds. a \<noteq> get_address T (int j)) \<longrightarrow>
            mem s' a = mem s a)))"
proof (intro conjI impI)
  assume "free_pages (mem s) = []"
  then show "new_process p k s = Some (emit (OOM_page_table p) s)"
    by (rule new_process_no_page_table)
next
  let ?m2 = "(mem s)(T := 1, PTP_OFFSET + p := word_of_int T)"
  let ?s' = "emit (OOM_data_page p) (s\<lparr>mem := map_pages T 0 ds ?m2\<rparr>)"
  assume "0 \<le> p \<and> p < PAGE_COUNT \<and> free_pages (mem s) = T # ds \<and> int (length ds) < k"
  then have h: "0 \<le> p" "p < PAGE_COUNT" "free_pages (mem s) = T # ds" "int (length ds) < k"
    by simp_all
  note r = new_process_no_data_page [OF h]
  from free_pages_head [OF h(3)] have T: "0 \<le> T" "T < PTP_OFFSET" by simp_all
  have ms': "mem ?s' = map_pages T 0 ds ?m2" "out ?s' = out s @ [OOM_data_page p]"
    by (simp_all add: emit_def)
  from h(1,2) have "get_page_table p (mem ?s') = Some (map_pages T 0 ds ?m2 (PTP_OFFSET + p))"
    by (simp add: get_page_table_def mem_read_def get_address_zero_page emit_def
        PTP_OFFSET_def PAGE_COUNT_def MEM_SIZE_def)
  with r(3) T have "\<exists>b. get_page_table p (mem ?s') = Some b \<and> uint b = T"
    by (simp add: uint_page_number)
  with r(1,2,4,5) ms' show "\<exists>s'. new_process p k s = Some s' \<and> out s' = out s @ [OOM_data_page p] \<and>
         mem s' = map_pages T 0 ds ?m2 \<and>
         mem s' T \<noteq> 0 \<and>
         (\<exists>b. get_page_table p (mem s') = Some b \<and> uint b = T) \<and>
         (\<forall>j<length ds. mem s' (ds ! j) \<noteq> 0 \<and> uint (mem s' (get_address T (int j))) = ds ! j) \<and>
         (\<forall>a. a \<notin> set (T # ds) \<and> a \<noteq> PTP_OFFSET + p \<and> (\<forall>j<length ds. a \<noteq> get_address T (int j)) \<longrightarrow>
            mem s' a = mem s a)"
    by (intro exI [of _ ?s']) (simp only: simp_thms)
qed


theorem new_process_out_of_memory_witness:
  "new_process 3 5 \<lparr>mem = \<lambda>a. 1, out = []\<rparr> = Some (emit (OOM_page_table 3) \<lparr>mem = \<lambda>a. 1, out = []\<rparr>) \<and>
   (\<exists>s'. new_process 3 5 \<lparr>mem = \<lambda>a. if a < 62 then 1 else 0, out = []\<rparr> = Some s' \<and>
      out s' = [OOM_data_page 3] \<and> mem s' 62 \<noteq> 0 \<and> mem s' 63 \<noteq> 0 \<and>
      get_page_table 3 (mem s') = Some 62 \<and> uint (mem s' (get_address 62 0)) = 63 \<and>
      mem s' 64 = 0)"
proof -
  let ?full = "\<lparr>mem = \<lambda>a. 1, out = []\<rparr> :: state"
  let ?s = "\<lparr>mem = \<lambda>a. if a < 62 then 1 else 0, out = []\<rparr> :: state"
  have f0: "free_pages (mem ?full) = []"
    by (simp add: free_pages_def free_from_def)
  have f2: "free_pages (mem ?s) = [62, 63]"
    by (simp add: free_pages_def free_from_def PTP_OFFSET_def upto.simps)
  have a: "get_address 62 0 = 15872"
    by (simp add: run_defs)
  from new_process_out_of_memory [where s = ?full and p = 3 and k = 5] f0
  have one: "new_process 3 5 ?full = Some (emit (OOM_page_table 3) ?full)"
    by simp
  from new_process_out_of_memory [where s = ?s and p = 3 and k = 5 and T = 62 and ds = "[63]"] f2
  obtain s' where s': "new_process 3 5 ?s = Some s'" "out s' = [OOM_data_page 3]"
      "mem s' 62 \<noteq> 0" "\<exists>b. get_page_table 3 (mem s') = Some b \<and> uint b = 62"
      "mem s' 63 \<noteq> 0 \<and> uint (mem s' (get_address 62 0)) = 63"
      "\<forall>a. a \<notin> set [62, 63] \<and> a \<noteq> PTP_OFFSET + 3 \<and> a \<noteq> get_address 62 0 \<longrightarrow> mem s' a = mem ?s a"
    by (auto simp add: PAGE_COUNT_def)
  from s'(4) have "get_page_table 3 (mem s') = Some 62"
    by (auto simp add: word_uint_eq_iff)
  moreover from s'(6) a have "mem s' 64 = 0"
    by (simp add: PTP_OFFSET_def)
  ultimately show ?thesis
    using one s' by auto
qed

section \<open>Killing a process on a reused page table\<close>

text \<open>
  C4 does not hold of the code. On fresh memory \<^verbatim>\<open>np 0 3\<close> takes 4 pages and \<^verbatim>\<open>kp 0\<close>
  gives the 4 back. But \<^verbatim>\<open>new_process\<close> does not clear the page it takes as page table, and
  \<^verbatim>\<open>kill_process\<close> frees every nonzero entry of that page. After
  \<^verbatim>\<open>np 0 1, kp 0, np 1 0, np 2 2, kp 1, np 3 0\<close> page 2 is free and still holds the entries
  3 and 4 that \<^verbatim>\<open>np 2 2\<close> wrote, while pages 3 and 4 are allocated. \<^verbatim>\<open>np 4 1\<close> succeeds:
  it takes page 2 as page table and page 5 as data page, which replaces entry 0. The
  \<^verbatim>\<open>kp 4\<close> that follows frees pages 5 and 2 and, through the old entry 1, page 4 as well:
  the bitmap regains 3 free entries, not \<open>k + 1 = 2\<close>.
\<close>

theorem kill_process_frees_stale_entries:
  "free_count_after (run [] initial_state) = Some 63 \<and>
   free_count_after (run [NP 0 3] initial_state) = Some 59 \<and>
   free_count_after (run [NP 0 3, KP 0] initial_state) = Some 63 \<and>
   out_after (run [NP 0 1, KP 0, NP 1 0, NP 2 2, KP 1, NP 3 0, NP 4 1] initial_state) = Some [] \<and>
   free_count_after (run [NP 0 1, KP 0, NP 1 0, NP 2 2, KP 1, NP 3 0] initial_state) = Some 60 \<and>
   free_count_after (run [NP 0 1, KP 0, NP 1 0, NP 2 2, KP 1, NP 3 0, NP 4 1] initial_state) = Some 58 \<and>
   free_count_after (run [NP 0 1, KP 0, NP 1 0, NP 2 2, KP 1, NP 3 0, NP 4 1, KP 4] initial_state) = Some 61 \<and>
   cell_after 4 (run [NP 0 1, KP 0, NP 1 0, NP 2 2, KP 1, NP 3 0, NP 4 1] initial_state) = Some 1 \<and>
   cell_after 4 (run [NP 0 1, KP 0, NP 1 0, NP 2 2, KP 1, NP 3 0, NP 4 1, KP 4] initial_state) = Some 0"
  by (simp add: run_defs free_count_after_def free_pages_def free_from_def upto.simps)

end
